theory Spec2Isabelle
  imports Complex_Main "HOL-Library.AList"
begin

section \<open>Python values, exceptions and library functions\<close>

text \<open>
  The program is \<^verbatim>\<open>src/game.py\<close>. Python's \<^verbatim>\<open>int\<close> is modelled as \<open>int\<close>, and
  Python's \<^verbatim>\<open>float\<close> as \<open>real\<close>: the rounding of binary64 arithmetic is not
  modelled, every operation is exact. Each exception the code can raise is a
  constructor of \<open>error\<close>. A method that mutates its object returns the pair of the
  exception it raised (\<open>None\<close> for a normal return) and the object as the call leaves
  it, since an exception does not undo the assignments made before it.
\<close>

datatype error =
    ZeroDivisionError
  | KeyError string
  | ValueError
  | IndexError
  | EOFError
  | KeyboardInterrupt

text \<open>The true division \<^verbatim>\<open>a / b\<close> of two Python integers.\<close>

definition py_truediv :: "int \<Rightarrow> int \<Rightarrow> error + real" where
  "py_truediv a b = (if b = 0 then Inl ZeroDivisionError else Inr (of_int a / of_int b))"

text \<open>
  \<^verbatim>\<open>round(x)\<close> of a float: the nearest integer, a tie going to the even neighbour.
\<close>

definition py_round :: "real \<Rightarrow> int" where
  "py_round x =
     (let f = \<lfloor>x\<rfloor>; d = x - of_int f
      in if d < 1 / 2 then f
         else if 1 / 2 < d then f + 1
         else if even f then f else f + 1)"

text \<open>\<^verbatim>\<open>int(x)\<close> of a float truncates towards zero.\<close>

definition py_int :: "real \<Rightarrow> int" where
  "py_int x = (if 0 \<le> x then \<lfloor>x\<rfloor> else \<lceil>x\<rceil>)"

text \<open>
  The random number generator is an input of the model: \<open>rand_random\<close> is what
  \<^verbatim>\<open>random.random()\<close> returns, \<open>rand_choice\<close> picks the index of
  \<^verbatim>\<open>random.choice\<close>, \<open>rand_int\<close> picks the offset of \<^verbatim>\<open>random.randint\<close>.
\<close>

record rng =
  rand_random :: real
  rand_choice :: nat
  rand_int :: nat

definition random_choice :: "nat \<Rightarrow> 'a list \<Rightarrow> error + 'a" where
  "random_choice i xs = (if xs = [] then Inl IndexError else Inr (xs ! (i mod length xs)))"

definition random_randint :: "nat \<Rightarrow> int \<Rightarrow> int \<Rightarrow> error + int" where
  "random_randint i a b =
     (if b < a then Inl ValueError else Inr (a + int i mod (b - a + 1)))"

text \<open>
  \<^verbatim>\<open>min(xs, key=f)\<close>: the key of each element is computed once, in order, and a later
  element replaces the best one only when its key is strictly smaller.
\<close>

fun min_key_from :: "('a \<Rightarrow> error + real) \<Rightarrow> 'a \<Rightarrow> real \<Rightarrow> 'a list \<Rightarrow> error + 'a" where
  "min_key_from f best bk [] = Inr best"
| "min_key_from f best bk (x # xs) =
     (case f x of
        Inl e \<Rightarrow> Inl e
      | Inr kx \<Rightarrow> if kx < bk then min_key_from f x kx xs else min_key_from f best bk xs)"

definition py_min_key :: "('a \<Rightarrow> error + real) \<Rightarrow> 'a list \<Rightarrow> error + 'a" where
  "py_min_key f xs =
     (case xs of
        [] \<Rightarrow> Inl ValueError
      | x # rest \<Rightarrow> (case f x of Inl e \<Rightarrow> Inl e | Inr kx \<Rightarrow> min_key_from f x kx rest))"

section \<open>HotColdLearner\<close>

record HotColdLearner =
  k :: real
  target_guesses :: int
  learning_rate :: real
  history :: "(int \<times> int) list"

definition HotColdLearner_init :: "int \<Rightarrow> HotColdLearner" where
  "HotColdLearner_init tg =
     \<lparr>k = 0.3, target_guesses = tg, learning_rate = 0.1, history = []\<rparr>"

definition update_k :: "int \<Rightarrow> int \<Rightarrow> HotColdLearner \<Rightarrow> error option \<times> HotColdLearner" where
  "update_k actual_guesses predicted_guesses self =
     (let r =
        (if actual_guesses \<le> target_guesses self then
           (case py_truediv predicted_guesses (target_guesses self) of
              Inl e \<Rightarrow> Inl e
            | Inr q \<Rightarrow> Inr (k self + learning_rate self * (1 - q)))
         else
           (case py_truediv actual_guesses (target_guesses self) of
              Inl e \<Rightarrow> Inl e
            | Inr q \<Rightarrow> Inr (k self - learning_rate self * (q - 1))))
      in case r of
           Inl e \<Rightarrow> (Some e, self)
         | Inr k1 \<Rightarrow> (None, self\<lparr>k := max 0.1 (min 0.8 k1)\<rparr>))"

definition is_hot :: "int \<Rightarrow> int \<Rightarrow> int \<Rightarrow> int \<Rightarrow> HotColdLearner \<Rightarrow> bool" where
  "is_hot guess secret cur_lo cur_hi self =
     (let distance = \<bar>guess - secret\<bar>;
          range_size = cur_hi - cur_lo + 1;
          threshold = k self * of_int range_size
      in of_int distance < threshold)"

definition record_game :: "int \<Rightarrow> HotColdLearner \<Rightarrow> error option \<times> HotColdLearner" where
  "record_game actual_guesses self =
     (let predicted_guesses = target_guesses self;
          self1 = self\<lparr>history := history self @ [(actual_guesses, predicted_guesses)]\<rparr>
      in update_k actual_guesses predicted_guesses self1)"

text \<open>
  A sequence of \<^verbatim>\<open>record_game\<close> calls on one learner. A call that raises leaves the
  learner as it is at the raise, and the next call goes on from there.
\<close>

fun record_games :: "int list \<Rightarrow> HotColdLearner \<Rightarrow> HotColdLearner" where
  "record_games [] self = self"
| "record_games (a # as) self = record_games as (snd (record_game a self))"

section \<open>HintBandit\<close>

text \<open>
  The two dictionaries are maps from a style to its value; reading a key that is not
  there raises \<^verbatim>\<open>KeyError\<close>.
\<close>

record HintBandit =
  hint_styles :: "string list"
  exploration_rate :: real
  attempts :: "string \<rightharpoonup> int"
  avg_attempts :: "string \<rightharpoonup> real"
  total_games :: int

definition HintBandit_init :: "string list \<Rightarrow> real \<Rightarrow> HintBandit" where
  "HintBandit_init styles rate =
     \<lparr>hint_styles = styles,
      exploration_rate = rate,
      attempts = map_of (map (\<lambda>style. (style, 0)) styles),
      avg_attempts = map_of (map (\<lambda>style. (style, 0)) styles),
      total_games = 0\<rparr>"

definition select_hint_style :: "rng \<Rightarrow> HintBandit \<Rightarrow> error + string" where
  "select_hint_style g self =
     (if rand_random g < exploration_rate self then
        random_choice (rand_choice g) (hint_styles self)
      else
        py_min_key
          (\<lambda>x. case avg_attempts self x of None \<Rightarrow> Inl (KeyError x) | Some v \<Rightarrow> Inr v)
          (hint_styles self))"

definition update_stats :: "string \<Rightarrow> int \<Rightarrow> HintBandit \<Rightarrow> error option \<times> HintBandit" where
  "update_stats hint_style n self =
     (case attempts self hint_style of
        None \<Rightarrow> (Some (KeyError hint_style), self)
      | Some c \<Rightarrow>
          (let self1 = self\<lparr>attempts := (attempts self)(hint_style \<mapsto> c + 1)\<rparr>;
               self2 = self1\<lparr>total_games := total_games self1 + 1\<rparr>
           in if c + 1 = 1 then
                (None, self2\<lparr>avg_attempts := (avg_attempts self2)(hint_style \<mapsto> of_int n)\<rparr>)
              else
                (case avg_attempts self2 hint_style of
                   None \<Rightarrow> (Some (KeyError hint_style), self2)
                 | Some a \<Rightarrow>
                     (None, self2\<lparr>avg_attempts :=
                        (avg_attempts self2)(hint_style \<mapsto> 0.8 * a + 0.2 * of_int n)\<rparr>))))"

text \<open>
  A sequence of \<^verbatim>\<open>update_stats\<close> calls on one bandit, each a style and an attempt
  count. A call that raises leaves the bandit as it is at the raise.
\<close>

fun update_stats_calls :: "(string \<times> int) list \<Rightarrow> HintBandit \<Rightarrow> HintBandit" where
  "update_stats_calls [] self = self"
| "update_stats_calls (c # cs) self =
     update_stats_calls cs (snd (update_stats (fst c) (snd c) self))"

section \<open>UserProfile and the statistics after a game\<close>

text \<open>
  The profile's field \<^verbatim>\<open>avg_attempts\<close> is \<open>user_avg_attempts\<close> here, the bandit's
  dictionary has the name already; \<^verbatim>\<open>None\<close> is \<open>None\<close>.
\<close>

record UserProfile =
  username :: string
  alpha :: real
  user_avg_attempts :: "real option"
  range_size :: int
  games_played :: int
  hot_cold_learner :: HotColdLearner
  hint_bandit :: HintBandit

definition UserProfile_init :: "string \<Rightarrow> UserProfile" where
  "UserProfile_init name =
     \<lparr>username = name,
      alpha = 0.5,
      user_avg_attempts = None,
      range_size = 100,
      games_played = 0,
      hot_cold_learner = HotColdLearner_init 3,
      hint_bandit = HintBandit_init [''hot_cold'', ''higher_lower'', ''range''] 0.1\<rparr>"

definition update_user_stats :: "int \<Rightarrow> UserProfile \<Rightarrow> UserProfile" where
  "update_user_stats n u =
     (let avg = (case user_avg_attempts u of
                   None \<Rightarrow> of_int n
                 | Some a \<Rightarrow> 0.8 * a + 0.2 * of_int n);
          u1 = u\<lparr>user_avg_attempts := Some avg\<rparr>;
          u2 = u1\<lparr>games_played := games_played u1 + 1\<rparr>
      in if avg < 4 then
           u2\<lparr>range_size := min 10000 (py_int (of_int (range_size u2) * 1.2))\<rparr>
         else if 8 < avg then
           u2\<lparr>range_size := max 10 (py_int (of_int (range_size u2) * 0.8))\<rparr>
         else u2)"

text \<open>
  \<^verbatim>\<open>get_hint\<close> returns the text to print; the texts are the constructors of \<open>hint\<close>.
  It changes nothing and raises nothing, and the loop only prints its result, so the
  model of the loop below leaves the call out.
\<close>

datatype hint =
    Hot | Cold
  | Higher | Lower
  | VeryClose | GettingWarm | Lukewarm | FarAway
  | InvalidHintStyle

definition get_hint :: "int \<Rightarrow> int \<Rightarrow> int \<Rightarrow> int \<Rightarrow> string \<Rightarrow> UserProfile \<Rightarrow> hint" where
  "get_hint guess secret lo hi hint_style u =
     (if hint_style = ''hot_cold'' then
        (if is_hot guess secret lo hi (hot_cold_learner u) then Hot else Cold)
      else if hint_style = ''higher_lower'' then
        (if guess < secret then Higher else Lower)
      else if hint_style = ''range'' then
        (let distance = \<bar>guess - secret\<bar>;
             width = hi - lo + 1
         in if of_int distance < of_int width * (0.1 :: real) then VeryClose
            else if of_int distance < of_int width * (0.3 :: real) then GettingWarm
            else if of_int distance < of_int width * (0.5 :: real) then Lukewarm
            else FarAway)
      else InvalidHintStyle)"

section \<open>Interactive input and the outcome of a game loop\<close>

text \<open>
  One call of \<^verbatim>\<open>input()\<close> gives a line, or raises \<^verbatim>\<open>EOFError\<close> at the end of the
  input, or \<^verbatim>\<open>KeyboardInterrupt\<close>. At a guess prompt the line is given as what
  \<^verbatim>\<open>int(...)\<close> makes of it: \<open>Some n\<close>, or \<open>None\<close> where \<^verbatim>\<open>int\<close> raises
  \<^verbatim>\<open>ValueError\<close>. At the other prompts the line is given as the text after
  \<^verbatim>\<open>.strip().lower()\<close>. What the program prints is not modelled, but for the guesses
  of the second mode.
\<close>

datatype 'a input = Line 'a | EndOfInput | Interrupted

text \<open>
  A game loop runs on a list of inputs, a prefix of what the player will type.
  \<open>Next\<close>: the pass through the loop body is over and the loop goes round.
  \<open>Waiting\<close>: the list is used up, the loop blocks in \<^verbatim>\<open>input()\<close>.
  \<open>Won\<close>: the loop was left by \<^verbatim>\<open>break\<close> after a match.
  \<open>Invalid\<close>: the second mode was left by \<^verbatim>\<open>break\<close> with an empty range.
  \<open>Stopped\<close>: the second mode returned on the end of the input.
  \<open>Raised\<close>: an exception left the function.
\<close>

datatype 's run =
    Next 's
  | Waiting 's
  | Won 's
  | Invalid 's
  | Stopped 's
  | Raised error 's

fun state_of :: "'s run \<Rightarrow> 's" where
  "state_of (Next st) = st"
| "state_of (Waiting st) = st"
| "state_of (Won st) = st"
| "state_of (Invalid st) = st"
| "state_of (Stopped st) = st"
| "state_of (Raised e st) = st"

text \<open>The local variable \<^verbatim>\<open>attempts\<close> of both modes is \<open>n_attempts\<close>.\<close>

record range_state =
  cur_lo :: int
  cur_hi :: int
  n_attempts :: int

section \<open>AdaptiveGame: the player guesses\<close>

text \<open>
  An \<^verbatim>\<open>AdaptiveGame\<close> holds its \<^verbatim>\<open>user\<close> and nothing else, so its methods are
  functions of the profile. \<open>user_turn\<close> is one pass through the body of the loop of
  \<^verbatim>\<open>play_user_guesses\<close>, from its \<^verbatim>\<open>input()\<close> on.
\<close>

record user_state = range_state +
  user :: UserProfile

definition user_turn :: "int \<Rightarrow> string \<Rightarrow> int option input \<Rightarrow> user_state \<Rightarrow> user_state run" where
  "user_turn secret hint_style inp st =
     (case inp of
        EndOfInput \<Rightarrow> Raised EOFError st
      | Interrupted \<Rightarrow> Raised KeyboardInterrupt st
      | Line None \<Rightarrow> Next st
      | Line (Some guess) \<Rightarrow>
          if guess < cur_lo st \<or> guess > cur_hi st then Next st
          else
            (let st1 = st\<lparr>n_attempts := n_attempts st + 1\<rparr>;
                 st2 = (if cur_hi st1 > cur_lo st1 then
                          (let pos = of_int (guess - cur_lo st1) / of_int (cur_hi st1 - cur_lo st1)
                           in st1\<lparr>user := (user st1)\<lparr>alpha := 0.9 * alpha (user st1) + 0.1 * pos\<rparr>\<rparr>)
                        else st1)
             in if guess = secret then
                  (case record_game (n_attempts st2) (hot_cold_learner (user st2)) of
                     (Some e, l) \<Rightarrow> Raised e (st2\<lparr>user := (user st2)\<lparr>hot_cold_learner := l\<rparr>\<rparr>)
                   | (None, l) \<Rightarrow>
                       (let st3 = st2\<lparr>user := (user st2)\<lparr>hot_cold_learner := l\<rparr>\<rparr>
                        in case update_stats hint_style (n_attempts st3) (hint_bandit (user st3)) of
                             (Some e, b) \<Rightarrow> Raised e (st3\<lparr>user := (user st3)\<lparr>hint_bandit := b\<rparr>\<rparr>)
                           | (None, b) \<Rightarrow>
                               (let st4 = st3\<lparr>user := (user st3)\<lparr>hint_bandit := b\<rparr>\<rparr>
                                in Won (st4\<lparr>user := update_user_stats (n_attempts st4) (user st4)\<rparr>))))
                else if guess < secret then
                  Next (st2\<lparr>cur_lo := max (cur_lo st2) (guess + 1)\<rparr>)
                else
                  Next (st2\<lparr>cur_hi := min (cur_hi st2) (guess - 1)\<rparr>)))"

fun user_loop :: "int \<Rightarrow> string \<Rightarrow> int option input list \<Rightarrow> user_state \<Rightarrow> user_state run" where
  "user_loop secret hint_style [] st = Waiting st"
| "user_loop secret hint_style (inp # rest) st =
     (case user_turn secret hint_style inp st of
        Next st' \<Rightarrow> user_loop secret hint_style rest st'
      | r \<Rightarrow> r)"

definition play_user_guesses :: "rng \<Rightarrow> int option input list \<Rightarrow> UserProfile \<Rightarrow> user_state run" where
  "play_user_guesses g inputs u =
     (let lo = 1; hi = range_size u;
          st = \<lparr>cur_lo = lo, cur_hi = hi, n_attempts = 0, user = u\<rparr>
      in case random_randint (rand_int g) lo hi of
           Inl e \<Rightarrow> Raised e st
         | Inr secret \<Rightarrow>
             (case select_hint_style g (hint_bandit u) of
                Inl e \<Rightarrow> Raised e st
              | Inr hint_style \<Rightarrow> user_loop secret hint_style inputs st))"


section \<open>AdaptiveGame: the computer guesses\<close>

text \<open>
  The guesses the program prints (\<^verbatim>\<open>My guess #n\<close>) are collected in \<open>said\<close>, in the
  order of printing. \<open>computer_announce\<close> is the first half of the loop body of
  \<^verbatim>\<open>play_computer_guesses\<close>, up to its \<^verbatim>\<open>input()\<close>, and \<open>computer_reply\<close> the second
  half: the guess is printed and counted before the response is read.
\<close>

record computer_state = range_state +
  said :: "int list"

definition computer_guess :: "real \<Rightarrow> int \<Rightarrow> int \<Rightarrow> int" where
  "computer_guess a lo hi =
     (let guess = (if hi > lo then
                     (let bias_pos = of_int lo + of_int (hi - lo) * a in py_round bias_pos)
                   else lo)
      in max lo (min hi guess))"

definition computer_announce :: "real \<Rightarrow> computer_state \<Rightarrow> int \<times> computer_state" where
  "computer_announce a st =
     (let guess = computer_guess a (cur_lo st) (cur_hi st);
          st1 = st\<lparr>n_attempts := n_attempts st + 1\<rparr>
      in (guess, st1\<lparr>said := said st1 @ [guess]\<rparr>))"

definition computer_reply :: "int \<Rightarrow> string input \<Rightarrow> computer_state \<Rightarrow> computer_state run" where
  "computer_reply guess inp st =
     (case inp of
        EndOfInput \<Rightarrow> Stopped st
      | Interrupted \<Rightarrow> Stopped st
      | Line response \<Rightarrow>
          if response = ''c'' then Won st
          else if response = ''h'' \<or> response = ''l'' then
            (let st1 = (if response = ''h''
                        then st\<lparr>cur_lo := max (cur_lo st) (guess + 1)\<rparr>
                        else st\<lparr>cur_hi := min (cur_hi st) (guess - 1)\<rparr>)
             in if cur_lo st1 > cur_hi st1 then Invalid st1 else Next st1)
          else Next st)"

fun computer_loop :: "real \<Rightarrow> string input list \<Rightarrow> computer_state \<Rightarrow> computer_state run" where
  "computer_loop a [] st = Waiting (snd (computer_announce a st))"
| "computer_loop a (inp # rest) st =
     (case computer_announce a st of
        (guess, st1) \<Rightarrow>
          (case computer_reply guess inp st1 of
             Next st2 \<Rightarrow> computer_loop a rest st2
           | r \<Rightarrow> r))"

text \<open>
  The first input answers \<^verbatim>\<open>Press Enter when you're ready...\<close>, which no handler
  surrounds; the others are the responses.
\<close>

definition play_computer_guesses :: "string input list \<Rightarrow> UserProfile \<Rightarrow> computer_state run" where
  "play_computer_guesses inputs u =
     (let lo = 1; hi = range_size u;
          st = \<lparr>cur_lo = lo, cur_hi = hi, n_attempts = 0, said = []\<rparr>
      in case inputs of
           [] \<Rightarrow> Waiting st
         | EndOfInput # replies \<Rightarrow> Raised EOFError st
         | Interrupted # replies \<Rightarrow> Raised KeyboardInterrupt st
         | Line ready # replies \<Rightarrow> computer_loop (alpha u) replies st)"

section \<open>UserProfile: saving and loading\<close>

text \<open>
  The file system maps a file name to what the file holds. A file written by
  \<^verbatim>\<open>json.dump\<close> is kept as the JSON value itself, and \<^verbatim>\<open>json.load\<close> gives that
  value back: the text in between is not modelled. An object is the list of its
  members in the order of the file, as the dictionary that \<^verbatim>\<open>json.load\<close> makes of
  it iterates. A Python \<^verbatim>\<open>float\<close> is written as \<open>JFloat\<close>; where the program holds an
  \<^verbatim>\<open>int\<close> in a field that is a \<open>real\<close> here, the file would show an integer of the
  same value. The file system takes every write (no full disk, no refused name).
\<close>

datatype json =
    JNull
  | JBool bool
  | JInt int
  | JFloat real
  | JString string
  | JArray "json list"
  | JObject "(string \<times> json) list"

datatype file_content = Json json | NotJson

type_synonym files = "string \<rightharpoonup> file_content"

definition profile_filename :: "string \<Rightarrow> string" where
  "profile_filename name = ''user_'' @ name @ ''.json''"

definition style_entry :: "int \<Rightarrow> real \<Rightarrow> json" where
  "style_entry c a = JObject [(''attempts'', JInt c), (''avg_attempts'', JFloat a)]"

text \<open>
  The dictionary comprehension over \<^verbatim>\<open>hint_styles\<close>: a style met again keeps its
  place and takes the new value.
\<close>

fun hint_style_stats :: "HintBandit \<Rightarrow> string list \<Rightarrow> (string \<times> json) list \<Rightarrow> error + (string \<times> json) list" where
  "hint_style_stats b [] acc = Inr acc"
| "hint_style_stats b (style # rest) acc =
     (case attempts b style of
        None \<Rightarrow> Inl (KeyError style)
      | Some c \<Rightarrow>
          (case avg_attempts b style of
             None \<Rightarrow> Inl (KeyError style)
           | Some a \<Rightarrow> hint_style_stats b rest (AList.update style (style_entry c a) acc)))"

definition save_to_file :: "UserProfile \<Rightarrow> files \<Rightarrow> error + files" where
  "save_to_file self fs =
     (case hint_style_stats (hint_bandit self) (hint_styles (hint_bandit self)) [] of
        Inl e \<Rightarrow> Inl e
      | Inr stats \<Rightarrow>
          (let data = JObject
                 [(''username'', JString (username self)),
                  (''alpha'', JFloat (alpha self)),
                  (''avg_attempts'',
                     (case user_avg_attempts self of None \<Rightarrow> JNull | Some a \<Rightarrow> JFloat a)),
                  (''range_size'', JInt (range_size self)),
                  (''games_played'', JInt (games_played self)),
                  (''hot_cold_k'', JFloat (k (hot_cold_learner self))),
                  (''hint_style_stats'', JObject stats)];
               filename = profile_filename (username self)
           in Inr (fs(filename \<mapsto> Json data))))"

text \<open>
  \<^verbatim>\<open>load_from_file\<close> assigns what the file gives without looking at its type. The
  fields of the model are typed, so a number is read as the field's type (\<open>as_float\<close>,
  \<open>as_int\<close>), and a value of another type ends the model's run with \<open>Unrepresentable\<close>:
  Python would store it as it is. Every exception inside the \<^verbatim>\<open>try\<close> is caught, and
  the method then returns \<^verbatim>\<open>False\<close> with the assignments made so far.
\<close>

datatype load_result = Returned bool UserProfile | Unrepresentable

definition as_float :: "json \<Rightarrow> real option" where
  "as_float v = (case v of JInt i \<Rightarrow> Some (of_int i) | JFloat r \<Rightarrow> Some r | _ \<Rightarrow> None)"

definition as_int :: "json \<Rightarrow> int option" where
  "as_int v = (case v of JInt i \<Rightarrow> Some i | _ \<Rightarrow> None)"

fun load_style_stats :: "(string \<times> json) list \<Rightarrow> UserProfile \<Rightarrow> load_result" where
  "load_style_stats [] self = Returned True self"
| "load_style_stats (item # rest) self =
     (let style = fst item; stats = snd item
      in if style \<in> set (hint_styles (hint_bandit self)) then
           (case stats of
              JObject members \<Rightarrow>
                (case map_of members ''attempts'' of
                   None \<Rightarrow> Returned False self
                 | Some v \<Rightarrow>
                     (case as_int v of
                        None \<Rightarrow> Unrepresentable
                      | Some c \<Rightarrow>
                          (let b1 = (hint_bandit self)
                                 \<lparr>attempts := (attempts (hint_bandit self))(style \<mapsto> c)\<rparr>;
                               self1 = self\<lparr>hint_bandit := b1\<rparr>
                           in case map_of members ''avg_attempts'' of
                                None \<Rightarrow> Returned False self1
                              | Some w \<Rightarrow>
                                  (case as_float w of
                                     None \<Rightarrow> Unrepresentable
                                   | Some a \<Rightarrow>
                                       load_style_stats rest
                                         (self1\<lparr>hint_bandit :=
                                            b1\<lparr>avg_attempts := (avg_attempts b1)(style \<mapsto> a)\<rparr>\<rparr>)))))
            | _ \<Rightarrow> Returned False self)
         else load_style_stats rest self)"

definition load_from_file :: "UserProfile \<Rightarrow> files \<Rightarrow> load_result" where
  "load_from_file self fs =
     (let filename = profile_filename (username self)
      in case fs filename of
           None \<Rightarrow> Returned False self
         | Some NotJson \<Rightarrow> Returned False self
         | Some (Json data) \<Rightarrow>
             (case data of
                JObject d \<Rightarrow>
                  (case (case map_of d ''alpha'' of None \<Rightarrow> Some 0.5 | Some v \<Rightarrow> as_float v) of
                     None \<Rightarrow> Unrepresentable
                   | Some al \<Rightarrow>
                  (case (case map_of d ''avg_attempts'' of
                           None \<Rightarrow> Some None
                         | Some JNull \<Rightarrow> Some None
                         | Some v \<Rightarrow> map_option Some (as_float v)) of
                     None \<Rightarrow> Unrepresentable
                   | Some av \<Rightarrow>
                  (case (case map_of d ''range_size'' of None \<Rightarrow> Some 100 | Some v \<Rightarrow> as_int v) of
                     None \<Rightarrow> Unrepresentable
                   | Some rs \<Rightarrow>
                  (case (case map_of d ''games_played'' of None \<Rightarrow> Some 0 | Some v \<Rightarrow> as_int v) of
                     None \<Rightarrow> Unrepresentable
                   | Some gp \<Rightarrow>
                  (let self1 = self\<lparr>alpha := al, user_avg_attempts := av,
                                     range_size := rs, games_played := gp\<rparr>
                   in case (case map_of d ''hot_cold_k'' of
                              None \<Rightarrow> Some (k (hot_cold_learner self1))
                            | Some v \<Rightarrow> as_float v) of
                        None \<Rightarrow> Unrepresentable
                      | Some k1 \<Rightarrow>
                          (let self2 = self1\<lparr>hot_cold_learner := (hot_cold_learner self1)\<lparr>k := k1\<rparr>\<rparr>
                           in case map_of d ''hint_style_stats'' of
                                None \<Rightarrow> Returned True self2
                              | Some (JObject items) \<Rightarrow> load_style_stats items self2
                              | Some _ \<Rightarrow> Returned False self2))))))
              | _ \<Rightarrow> Returned False self))"

text \<open>
  The invariant of a bandit: each of its styles has an entry in both dictionaries. The
  constructor sets it up, and no method removes an entry.
\<close>

definition has_all_styles :: "HintBandit \<Rightarrow> bool" where
  "has_all_styles b =
     (\<forall>s \<in> set (hint_styles b). attempts b s \<noteq> None \<and> avg_attempts b s \<noteq> None)"

section \<open>The menu\<close>

text \<open>
  One pass through the loop of \<^verbatim>\<open>main\<close>: the choice is read inside a \<^verbatim>\<open>try\<close> that
  catches \<^verbatim>\<open>EOFError\<close> and \<^verbatim>\<open>KeyboardInterrupt\<close>; the call of the chosen mode stands
  outside of it, so an exception that leaves the mode leaves \<^verbatim>\<open>main\<close> too.
  \<open>Menu\<close>: the pass is over and the menu is shown again.
  \<open>InGame\<close>: the inputs given are used up inside the mode.
  \<open>Quit\<close>: the loop was left by \<^verbatim>\<open>break\<close>.
  \<open>Uncaught\<close>: an exception left \<^verbatim>\<open>main\<close>, the process dies with a traceback.
  The choice is given stripped; \<open>guesses\<close> are the inputs of the first mode and
  \<open>replies\<close> those of the second. \<^verbatim>\<open>show_stats\<close> only prints, but it reads both
  dictionaries of the bandit for each style, \<^verbatim>\<open>avg_attempts\<close> first.
\<close>

fun show_stats_styles :: "HintBandit \<Rightarrow> string list \<Rightarrow> error option" where
  "show_stats_styles b [] = None"
| "show_stats_styles b (style # rest) =
     (case avg_attempts b style of
        None \<Rightarrow> Some (KeyError style)
      | Some avg \<Rightarrow>
          (case attempts b style of
             None \<Rightarrow> Some (KeyError style)
           | Some count \<Rightarrow> show_stats_styles b rest))"

definition show_stats :: "UserProfile \<Rightarrow> error option" where
  "show_stats u = show_stats_styles (hint_bandit u) (hint_styles (hint_bandit u))"

datatype menu_result =
    Menu UserProfile files
  | InGame
  | Quit UserProfile files
  | Uncaught error

definition menu_turn ::
  "rng \<Rightarrow> string input \<Rightarrow> int option input list \<Rightarrow> string input list
    \<Rightarrow> UserProfile \<Rightarrow> files \<Rightarrow> menu_result" where
  "menu_turn g choice guesses replies u fs =
     (case choice of
        EndOfInput \<Rightarrow> Quit u fs
      | Interrupted \<Rightarrow> Quit u fs
      | Line c \<Rightarrow>
          if c = ''1'' then
            (case play_user_guesses g guesses u of
               Won st \<Rightarrow> Menu (user st) fs
             | Raised e st \<Rightarrow> Uncaught e
             | _ \<Rightarrow> InGame)
          else if c = ''2'' then
            (case play_computer_guesses replies u of
               Waiting st \<Rightarrow> InGame
             | Next st \<Rightarrow> InGame
             | Raised e st \<Rightarrow> Uncaught e
             | _ \<Rightarrow> Menu u fs)
          else if c = ''3'' then
            (case show_stats u of Some e \<Rightarrow> Uncaught e | None \<Rightarrow> Menu u fs)
          else if c = ''4'' then
            (case save_to_file u fs of Inl e \<Rightarrow> Uncaught e | Inr fs' \<Rightarrow> Menu u fs')
          else if c = ''5'' then
            (case save_to_file u fs of Inl e \<Rightarrow> Uncaught e | Inr fs' \<Rightarrow> Quit u fs')
          else Menu u fs)"

section \<open>The threshold stays clamped\<close>

lemma HotColdLearner_init_k: "k (HotColdLearner_init tg) = 0.3"
  by (simp add: HotColdLearner_init_def)

lemma clamp_bounds:
  fixes x :: real
  shows "0.1 \<le> max 0.1 (min 0.8 x) \<and> max 0.1 (min 0.8 x) \<le> 0.8"
  by (simp add: max_def min_def)

lemma update_k_result:
  "update_k a p self = (Some ZeroDivisionError, self)
   \<or> (\<exists>k1. update_k a p self = (None, self\<lparr>k := max 0.1 (min 0.8 k1)\<rparr>))"
  by (cases "target_guesses self = 0") (auto simp add: update_k_def py_truediv_def)

lemma update_k_bounds:
  assumes "0.1 \<le> k self" and "k self \<le> 0.8"
  shows "0.1 \<le> k (snd (update_k a p self)) \<and> k (snd (update_k a p self)) \<le> 0.8"
  using update_k_result [of a p self]
proof
  assume "update_k a p self = (Some ZeroDivisionError, self)"
  then show ?thesis
    using assms by simp
next
  assume "\<exists>k1. update_k a p self = (None, self\<lparr>k := max 0.1 (min 0.8 k1)\<rparr>)"
  then obtain k1 where "update_k a p self = (None, self\<lparr>k := max 0.1 (min 0.8 k1)\<rparr>)"
    by blast
  then show ?thesis
    using clamp_bounds [of k1] by simp
qed

lemma record_game_bounds:
  assumes "0.1 \<le> k self" and "k self \<le> 0.8"
  shows "0.1 \<le> k (snd (record_game a self)) \<and> k (snd (record_game a self)) \<le> 0.8"
proof -
  let ?s = "self\<lparr>history := history self @ [(a, target_guesses self)]\<rparr>"
  have "0.1 \<le> k ?s" and "k ?s \<le> 0.8"
    using assms by simp_all
  then show ?thesis
    unfolding record_game_def Let_def by (rule update_k_bounds)
qed

lemma record_games_bounds:
  "0.1 \<le> k self \<Longrightarrow> k self \<le> 0.8 \<Longrightarrow>
   0.1 \<le> k (record_games as self) \<and> k (record_games as self) \<le> 0.8"
proof (induction as arbitrary: self)
  case Nil
  then show ?case by simp
next
  case (Cons a as)
  from record_game_bounds [OF Cons.prems]
  have "0.1 \<le> k (snd (record_game a self))" and "k (snd (record_game a self)) \<le> 0.8"
    by simp_all
  then show ?case
    using Cons.IH by simp
qed

text \<open>
  C1. Starting from the constructor's \<open>k = 0.3\<close>, after every sequence of
  \<^verbatim>\<open>record_game\<close> calls whose \<^verbatim>\<open>actual_guesses\<close> are at least 1 the field \<open>k\<close> lies in
  the closed interval from 0.1 to 0.8. The list \<open>as\<close> is any such sequence, so the
  bound holds after each of its calls; it holds for every \<^verbatim>\<open>target_guesses\<close>, also
  for zero, where the call raises and leaves \<open>k\<close> as it was.
\<close>

theorem record_game_k_clamped:
  assumes "\<forall>a \<in> set as. 1 \<le> a"
  shows "0.1 \<le> k (record_games as (HotColdLearner_init tg))
       \<and> k (record_games as (HotColdLearner_init tg)) \<le> 0.8"
  by (rule record_games_bounds) (simp_all add: HotColdLearner_init_k)

theorem record_game_k_clamped_witness:
  "0.1 \<le> k (record_games [1, 7, 2] (HotColdLearner_init 3))
   \<and> k (record_games [1, 7, 2] (HotColdLearner_init 3)) \<le> 0.8
   \<and> k (record_games [1, 7, 2] (HotColdLearner_init 3)) = 1 / 6"
proof -
  have h: "\<forall>a \<in> set [1, 7, 2 :: int]. 1 \<le> a" by simp
  have v: "k (record_games [1, 7, 2] (HotColdLearner_init 3)) = 1 / 6"
    by (simp add: record_game_def update_k_def py_truediv_def HotColdLearner_init_def Let_def)
  show ?thesis
    using record_game_k_clamped [OF h, of 3] v by simp
qed

section \<open>The running average of a hint style\<close>

lemma update_stats_other:
  assumes "t \<noteq> s"
  shows "attempts (snd (update_stats s n b)) t = attempts b t"
    and "avg_attempts (snd (update_stats s n b)) t = avg_attempts b t"
  using assms
  by (auto simp: update_stats_def Let_def split: option.splits)

lemma update_stats_same:
  assumes "attempts b s = Some c" and "avg_attempts b s = Some a"
  shows "\<exists>b'. update_stats s n b = (None, b')
           \<and> attempts b' s = Some (c + 1)
           \<and> avg_attempts b' s = Some (if c = 0 then of_int n else 0.8 * a + 0.2 * of_int n)"
  using assms
  by (simp add: update_stats_def Let_def)

lemma update_stats_calls_count:
  assumes "attempts b s = Some c" and "avg_attempts b s = Some a"
  shows "attempts (update_stats_calls cs b) s = Some (c + int (count_list (map fst cs) s))
       \<and> (\<exists>a'. avg_attempts (update_stats_calls cs b) s = Some a')"
  using assms
proof (induction cs arbitrary: b c a)
  case Nil
  then show ?case by simp
next
  case (Cons x cs)
  show ?case
  proof (cases "fst x = s")
    case True
    from update_stats_same [OF Cons.prems, of "snd x"]
    obtain b' where b': "update_stats s (snd x) b = (None, b')"
      "attempts b' s = Some (c + 1)" and "\<exists>a'. avg_attempts b' s = Some a'"
      by auto
    then obtain a' where "avg_attempts b' s = Some a'" by blast
    from Cons.IH [OF b'(2) this] show ?thesis
      using True b'(1) by (simp add: algebra_simps)
  next
    case False
    then have "attempts (snd (update_stats (fst x) (snd x) b)) s = Some c"
      and "avg_attempts (snd (update_stats (fst x) (snd x) b)) s = Some a"
      using Cons.prems by (simp_all add: update_stats_other)
    from Cons.IH [OF this] show ?thesis
      using False by simp
  qed
qed

lemma map_of_constant:
  "s \<in> set styles \<Longrightarrow> map_of (map (\<lambda>style. (style, v)) styles) s = Some v"
  by (induction styles) auto

lemma HintBandit_init_lookup:
  assumes "s \<in> set styles"
  shows "attempts (HintBandit_init styles rate) s = Some 0"
    and "avg_attempts (HintBandit_init styles rate) s = Some 0"
  using assms by (simp_all add: HintBandit_init_def map_of_constant)

text \<open>
  C3. Take a bandit made by the constructor and any sequence \<open>cs\<close> of earlier
  \<^verbatim>\<open>update_stats\<close> calls, and let \<open>s\<close> be one of its styles. The next call
  \<^verbatim>\<open>update_stats(s, n)\<close> returns normally. When it is the first call for \<open>s\<close>
  (no call of \<open>cs\<close> is for \<open>s\<close>) it sets \<^verbatim>\<open>avg_attempts[s]\<close> to \<open>n\<close> itself; when
  it is a later call it sets \<^verbatim>\<open>avg_attempts[s]\<close> to \<open>0.8 * old + 0.2 * n\<close>, where
  \<open>old\<close> is the value before the call.
\<close>

theorem update_stats_first_exact_then_blend:
  assumes "s \<in> set styles"
  shows "\<exists>old b'.
           avg_attempts (update_stats_calls cs (HintBandit_init styles rate)) s = Some old
         \<and> update_stats s n (update_stats_calls cs (HintBandit_init styles rate)) = (None, b')
         \<and> avg_attempts b' s =
             Some (if s \<notin> set (map fst cs) then of_int n else 0.8 * old + 0.2 * of_int n)"
proof -
  let ?b = "update_stats_calls cs (HintBandit_init styles rate)"
  have "attempts ?b s = Some (0 + int (count_list (map fst cs) s))
      \<and> (\<exists>a'. avg_attempts ?b s = Some a')"
    by (rule update_stats_calls_count) (rule HintBandit_init_lookup [OF assms])+
  then obtain old where cnt: "attempts ?b s = Some (int (count_list (map fst cs) s))"
    and old: "avg_attempts ?b s = Some old"
    by auto
  from update_stats_same [OF cnt old, of n]
  obtain b' where "update_stats s n ?b = (None, b')"
    and "avg_attempts b' s =
      Some (if int (count_list (map fst cs) s) = 0 then of_int n else 0.8 * old + 0.2 * of_int n)"
    by blast
  moreover have "(int (count_list (map fst cs) s) = 0) = (s \<notin> set (map fst cs))"
    by (simp add: count_list_0_iff)
  ultimately show ?thesis
    using old by auto
qed

theorem update_stats_first_exact_then_blend_witness:
  "''range'' \<in> set [''hot_cold'', ''higher_lower'', ''range'']
   \<and> avg_attempts
        (snd (update_stats ''range'' 4
           (update_stats_calls [(''hot_cold'', 9)]
              (HintBandit_init [''hot_cold'', ''higher_lower'', ''range''] 0.1))))
        ''range'' = Some 4
   \<and> avg_attempts
        (snd (update_stats ''range'' 6
           (update_stats_calls [(''hot_cold'', 9), (''range'', 4)]
              (HintBandit_init [''hot_cold'', ''higher_lower'', ''range''] 0.1))))
        ''range'' = Some (0.8 * 4 + 0.2 * 6)"
proof -
  let ?styles = "[''hot_cold'', ''higher_lower'', ''range'']"
  have h: "''range'' \<in> set ?styles" by simp
  have old: "avg_attempts
      (update_stats_calls [(''hot_cold'', 9), (''range'', 4)] (HintBandit_init ?styles 0.1))
      ''range'' = Some 4"
    by (simp add: update_stats_def HintBandit_init_def Let_def)
  show ?thesis
    using h
      update_stats_first_exact_then_blend [OF h, of "[(''hot_cold'', 9)]" "0.1" 4]
      update_stats_first_exact_then_blend [OF h, of "[(''hot_cold'', 9), (''range'', 4)]" "0.1" 6]
      old
    by auto
qed

section \<open>Greedy selection of the hint style\<close>

lemma min_key_from_first_minimum:
  assumes "\<forall>x \<in> set xs. f x = Inr (h x)"
  shows "\<exists>r. min_key_from f best (h best) xs = Inr r
           \<and> ((r = best \<and> (\<forall>x \<in> set xs. h best \<le> h x))
              \<or> (\<exists>pre post. xs = pre @ r # post \<and> h r < h best
                    \<and> (\<forall>x \<in> set pre. h r < h x) \<and> (\<forall>x \<in> set post. h r \<le> h x)))"
  using assms
proof (induction xs arbitrary: best)
  case Nil
  then show ?case by simp
next
  case (Cons x xs)
  then have fx: "f x = Inr (h x)" and rest: "\<forall>y \<in> set xs. f y = Inr (h y)"
    by simp_all
  show ?case
  proof (cases "h x < h best")
    case True
    from Cons.IH [OF rest, of x]
    obtain r where r: "min_key_from f x (h x) xs = Inr r"
      and alt: "(r = x \<and> (\<forall>y \<in> set xs. h x \<le> h y))
              \<or> (\<exists>pre post. xs = pre @ r # post \<and> h r < h x
                    \<and> (\<forall>y \<in> set pre. h r < h y) \<and> (\<forall>y \<in> set post. h r \<le> h y))"
      by blast
    have run: "min_key_from f best (h best) (x # xs) = Inr r"
      using fx True r by simp
    from alt show ?thesis
    proof
      assume "r = x \<and> (\<forall>y \<in> set xs. h x \<le> h y)"
      then have "x # xs = [] @ r # xs \<and> h r < h best
          \<and> (\<forall>y \<in> set []. h r < h y) \<and> (\<forall>y \<in> set xs. h r \<le> h y)"
        using True by simp
      then show ?thesis using run by blast
    next
      assume "\<exists>pre post. xs = pre @ r # post \<and> h r < h x
                    \<and> (\<forall>y \<in> set pre. h r < h y) \<and> (\<forall>y \<in> set post. h r \<le> h y)"
      then obtain pre post where "xs = pre @ r # post" "h r < h x"
        "\<forall>y \<in> set pre. h r < h y" "\<forall>y \<in> set post. h r \<le> h y"
        by blast
      then have "x # xs = (x # pre) @ r # post \<and> h r < h best
          \<and> (\<forall>y \<in> set (x # pre). h r < h y) \<and> (\<forall>y \<in> set post. h r \<le> h y)"
        using True by simp
      then show ?thesis using run by blast
    qed
  next
    case False
    from Cons.IH [OF rest, of best]
    obtain r where r: "min_key_from f best (h best) xs = Inr r"
      and alt: "(r = best \<and> (\<forall>y \<in> set xs. h best \<le> h y))
              \<or> (\<exists>pre post. xs = pre @ r # post \<and> h r < h best
                    \<and> (\<forall>y \<in> set pre. h r < h y) \<and> (\<forall>y \<in> set post. h r \<le> h y))"
      by blast
    have run: "min_key_from f best (h best) (x # xs) = Inr r"
      using fx False r by simp
    from alt show ?thesis
    proof
      assume "r = best \<and> (\<forall>y \<in> set xs. h best \<le> h y)"
      then show ?thesis using run False by auto
    next
      assume "\<exists>pre post. xs = pre @ r # post \<and> h r < h best
                    \<and> (\<forall>y \<in> set pre. h r < h y) \<and> (\<forall>y \<in> set post. h r \<le> h y)"
      then obtain pre post where "xs = pre @ r # post" "h r < h best"
        "\<forall>y \<in> set pre. h r < h y" "\<forall>y \<in> set post. h r \<le> h y"
        by blast
      then have "x # xs = (x # pre) @ r # post \<and> h r < h best
          \<and> (\<forall>y \<in> set (x # pre). h r < h y) \<and> (\<forall>y \<in> set post. h r \<le> h y)"
        using False by simp
      then show ?thesis using run by blast
    qed
  qed
qed

lemma py_min_key_first_minimum:
  assumes "xs \<noteq> []" and "\<forall>x \<in> set xs. f x = Inr (h x)"
  shows "\<exists>r pre post. py_min_key f xs = Inr r \<and> xs = pre @ r # post
           \<and> (\<forall>x \<in> set pre. h r < h x) \<and> (\<forall>x \<in> set post. h r \<le> h x)"
proof -
  from assms(1) obtain x rest where xs: "xs = x # rest"
    by (cases xs) auto
  with assms(2) have fx: "f x = Inr (h x)" and frest: "\<forall>y \<in> set rest. f y = Inr (h y)"
    by simp_all
  from min_key_from_first_minimum [OF frest, of x]
  obtain r where r: "min_key_from f x (h x) rest = Inr r"
    and alt: "(r = x \<and> (\<forall>y \<in> set rest. h x \<le> h y))
            \<or> (\<exists>pre post. rest = pre @ r # post \<and> h r < h x
                  \<and> (\<forall>y \<in> set pre. h r < h y) \<and> (\<forall>y \<in> set post. h r \<le> h y))"
    by blast
  have run: "py_min_key f xs = Inr r"
    using xs fx r by (simp add: py_min_key_def)
  from alt show ?thesis
  proof
    assume "r = x \<and> (\<forall>y \<in> set rest. h x \<le> h y)"
    then have "xs = [] @ r # rest \<and> (\<forall>y \<in> set []. h r < h y) \<and> (\<forall>y \<in> set rest. h r \<le> h y)"
      using xs by simp
    then show ?thesis using run by blast
  next
    assume "\<exists>pre post. rest = pre @ r # post \<and> h r < h x
                  \<and> (\<forall>y \<in> set pre. h r < h y) \<and> (\<forall>y \<in> set post. h r \<le> h y)"
    then obtain pre post where "rest = pre @ r # post" "h r < h x"
      "\<forall>y \<in> set pre. h r < h y" "\<forall>y \<in> set post. h r \<le> h y"
      by blast
    then have "xs = (x # pre) @ r # post \<and> (\<forall>y \<in> set (x # pre). h r < h y)
        \<and> (\<forall>y \<in> set post. h r \<le> h y)"
      using xs by simp
    then show ?thesis using run by blast
  qed
qed

text \<open>
  C4. With \<^verbatim>\<open>exploration_rate = 0\<close> the draw of \<^verbatim>\<open>random.random()\<close>, which is never
  negative, is never below the rate, so \<^verbatim>\<open>select_hint_style\<close> always exploits. For a
  bandit with at least one style, each with an average \<open>avg s\<close>, there is one style
  \<open>r\<close> that every run returns, whatever the random generator gives: \<open>r\<close> stands in
  \<^verbatim>\<open>hint_styles\<close> with every style before it having a strictly greater average and
  every style after it an average at least as great, so \<open>r\<close> is the first style of
  minimal average.
\<close>

theorem select_hint_style_greedy_first_minimum:
  assumes "exploration_rate self = 0"
    and "hint_styles self \<noteq> []"
    and "\<forall>s \<in> set (hint_styles self). avg_attempts self s = Some (avg s)"
  shows "\<exists>r pre post.
           (\<forall>g. 0 \<le> rand_random g \<longrightarrow> select_hint_style g self = Inr r)
         \<and> hint_styles self = pre @ r # post
         \<and> (\<forall>s \<in> set pre. avg r < avg s)
         \<and> (\<forall>s \<in> set post. avg r \<le> avg s)"
proof -
  let ?f = "\<lambda>x. case avg_attempts self x of None \<Rightarrow> Inl (KeyError x) | Some v \<Rightarrow> Inr v"
  have "\<forall>s \<in> set (hint_styles self). ?f s = Inr (avg s)"
    using assms(3) by simp
  from py_min_key_first_minimum [OF assms(2) this]
  obtain r pre post where "py_min_key ?f (hint_styles self) = Inr r"
    and dec: "hint_styles self = pre @ r # post"
      "\<forall>s \<in> set pre. avg r < avg s" "\<forall>s \<in> set post. avg r \<le> avg s"
    by blast
  then have "\<forall>g. 0 \<le> rand_random g \<longrightarrow> select_hint_style g self = Inr r"
    using assms(1) by (simp add: select_hint_style_def)
  with dec show ?thesis by blast
qed

theorem select_hint_style_greedy_first_minimum_witness:
  "select_hint_style \<lparr>rand_random = 0, rand_choice = 0, rand_int = 0\<rparr>
     (update_stats_calls [(''hot_cold'', 5), (''higher_lower'', 3), (''range'', 3)]
        (HintBandit_init [''hot_cold'', ''higher_lower'', ''range''] 0))
     = Inr ''higher_lower''
   \<and> select_hint_style \<lparr>rand_random = 0.7, rand_choice = 2, rand_int = 41\<rparr>
     (update_stats_calls [(''hot_cold'', 5), (''higher_lower'', 3), (''range'', 3)]
        (HintBandit_init [''hot_cold'', ''higher_lower'', ''range''] 0))
     = Inr ''higher_lower''"
proof -
  let ?b = "update_stats_calls [(''hot_cold'', 5), (''higher_lower'', 3), (''range'', 3)]
        (HintBandit_init [''hot_cold'', ''higher_lower'', ''range''] 0)"
  let ?avg = "\<lambda>s. if s = ''hot_cold'' then 5 else (3::real)"
  have rate: "exploration_rate ?b = 0"
    by (simp add: update_stats_def HintBandit_init_def Let_def)
  have styles: "hint_styles ?b = [''hot_cold'', ''higher_lower'', ''range'']"
    by (simp add: update_stats_def HintBandit_init_def Let_def)
  have avgs: "\<forall>s \<in> set (hint_styles ?b). avg_attempts ?b s = Some (?avg s)"
    unfolding styles by (simp add: update_stats_def HintBandit_init_def Let_def)
  have ne: "hint_styles ?b \<noteq> []"
    unfolding styles by simp
  from select_hint_style_greedy_first_minimum [OF rate ne avgs]
  obtain r where all: "\<forall>g. 0 \<le> rand_random g \<longrightarrow> select_hint_style g ?b = Inr r"
    by blast
  have first: "select_hint_style \<lparr>rand_random = 0, rand_choice = 0, rand_int = 0\<rparr> ?b
      = Inr ''higher_lower''"
    unfolding select_hint_style_def rate styles
    by (simp add: py_min_key_def update_stats_def HintBandit_init_def Let_def)
  from all have "select_hint_style \<lparr>rand_random = 0, rand_choice = 0, rand_int = 0\<rparr> ?b = Inr r"
    and "select_hint_style \<lparr>rand_random = 0.7, rand_choice = 2, rand_int = 41\<rparr> ?b = Inr r"
    by simp_all
  with first show ?thesis by simp
qed

section \<open>The player guesses: a win in three attempts\<close>

text \<open>
  \<^verbatim>\<open>record_game\<close> predicts \<^verbatim>\<open>target_guesses\<close> itself, so on the branch
  \<^verbatim>\<open>actual_guesses <= target_guesses\<close> the increment of \<open>k\<close> is
  \<open>learning_rate * (1 - target / target)\<close>, which is zero: \<open>k\<close> is only clamped again.
\<close>

lemma record_game_within_target:
  assumes "target_guesses l \<noteq> 0" and "a \<le> target_guesses l"
  shows "record_game a l =
           (None, l\<lparr>history := history l @ [(a, target_guesses l)],
                    k := max 0.1 (min 0.8 (k l))\<rparr>)"
  using assms
  by (simp add: record_game_def update_k_def py_truediv_def Let_def)

lemma select_hint_style_fresh:
  "\<exists>s. select_hint_style g (HintBandit_init [''hot_cold'', ''higher_lower'', ''range''] 0.1) = Inr s
       \<and> s \<in> set [''hot_cold'', ''higher_lower'', ''range'']"
proof (cases "rand_random g < 0.1")
  case True
  let ?xs = "[''hot_cold'', ''higher_lower'', ''range'']"
  have "rand_choice g mod length ?xs < length ?xs"
    by simp
  then have "?xs ! (rand_choice g mod length ?xs) \<in> set ?xs"
    by (rule nth_mem)
  moreover have "select_hint_style g (HintBandit_init ?xs 0.1)
      = Inr (?xs ! (rand_choice g mod length ?xs))"
    using True by (simp add: select_hint_style_def HintBandit_init_def random_choice_def)
  ultimately show ?thesis by blast
next
  case False
  then have "select_hint_style g (HintBandit_init [''hot_cold'', ''higher_lower'', ''range''] 0.1)
      = Inr ''hot_cold''"
    by (simp add: select_hint_style_def HintBandit_init_def py_min_key_def)
  then show ?thesis by simp
qed




section \<open>The computer's guess\<close>

text \<open>
  C10. In the second mode, for every \<open>alpha\<close> and every range with
  \<open>cur_lo \<le> cur_hi\<close>, the guess the loop prints, which is the one left by the final
  \<^verbatim>\<open>max(cur_lo, min(cur_hi, guess))\<close>, lies between \<open>cur_lo\<close> and \<open>cur_hi\<close>.
\<close>

theorem computer_guess_in_range:
  assumes "cur_lo st \<le> cur_hi st"
  shows "fst (computer_announce a st) = computer_guess a (cur_lo st) (cur_hi st)
       \<and> said (snd (computer_announce a st)) = said st @ [fst (computer_announce a st)]
       \<and> cur_lo st \<le> fst (computer_announce a st)
       \<and> fst (computer_announce a st) \<le> cur_hi st"
  using assms
  by (simp add: computer_announce_def computer_guess_def Let_def)

theorem computer_guess_in_range_witness:
  "fst (computer_announce (-3) \<lparr>cur_lo = 1, cur_hi = 100, n_attempts = 0, said = []\<rparr>) = 1
   \<and> fst (computer_announce 7.5 \<lparr>cur_lo = 1, cur_hi = 100, n_attempts = 0, said = []\<rparr>) = 100
   \<and> 1 \<le> fst (computer_announce 0.3 \<lparr>cur_lo = 1, cur_hi = 100, n_attempts = 0, said = []\<rparr>)
   \<and> fst (computer_announce 0.3 \<lparr>cur_lo = 1, cur_hi = 100, n_attempts = 0, said = []\<rparr>) \<le> 100"
proof -
  let ?st = "\<lparr>cur_lo = 1, cur_hi = 100, n_attempts = 0, said = []\<rparr>"
  have h: "cur_lo ?st \<le> cur_hi ?st" by simp
  have lo: "fst (computer_announce (-3) ?st) = 1"
    by (simp add: computer_announce_def computer_guess_def py_round_def Let_def)
  have hi: "fst (computer_announce 7.5 ?st) = 100"
    by (simp add: computer_announce_def computer_guess_def py_round_def Let_def)
  show ?thesis
    using computer_guess_in_range [OF h, of "0.3"] lo hi by simp
qed

lemma computer_reply_said:
  "said (state_of (computer_reply guess inp st)) = said st"
  by (simp add: computer_reply_def Let_def split: input.splits)

lemma computer_loop_Cons:
  "computer_loop a (inp # rest) st =
     (case computer_reply (fst (computer_announce a st)) inp (snd (computer_announce a st)) of
        Next st2 \<Rightarrow> computer_loop a rest st2
      | r \<Rightarrow> r)"
  by (simp split: prod.split)

lemma computer_announce_said:
  "fst (computer_announce a st) = computer_guess a (cur_lo st) (cur_hi st)"
  "said (snd (computer_announce a st)) = said st @ [computer_guess a (cur_lo st) (cur_hi st)]"
  by (simp_all add: computer_announce_def Let_def)

lemma computer_loop_said:
  "\<exists>more. said (state_of (computer_loop a replies st))
       = said st @ computer_guess a (cur_lo st) (cur_hi st) # more"
proof (induction replies arbitrary: st)
  case Nil
  then show ?case by (simp add: computer_announce_said)
next
  case (Cons inp replies)
  let ?g = "fst (computer_announce a st)"
  let ?st1 = "snd (computer_announce a st)"
  have kept: "said (state_of (computer_reply ?g inp ?st1))
      = said st @ [computer_guess a (cur_lo st) (cur_hi st)]"
    by (simp add: computer_reply_said computer_announce_said)
  show ?case
    unfolding computer_loop_Cons
  proof (cases "computer_reply ?g inp ?st1")
    case (Next st2)
    then have "said st2 = said st @ [computer_guess a (cur_lo st) (cur_hi st)]"
      using kept by simp
    moreover from Cons.IH [of st2]
    obtain more where "said (state_of (computer_loop a replies st2))
        = said st2 @ computer_guess a (cur_lo st2) (cur_hi st2) # more"
      by blast
    ultimately show "\<exists>more. said (state_of
        (case computer_reply ?g inp ?st1 of Next st2 \<Rightarrow> computer_loop a replies st2 | r \<Rightarrow> r))
        = said st @ computer_guess a (cur_lo st) (cur_hi st) # more"
      unfolding Next by simp
  qed (use kept in simp_all)
qed

lemma UserProfile_init_alpha_range:
  "alpha (UserProfile_init name) = 0.5" "range_size (UserProfile_init name) = 100"
  by (simp_all add: UserProfile_init_def)

lemma play_computer_guesses_ready:
  "play_computer_guesses (Line ready # replies) u =
     computer_loop (alpha u) replies \<lparr>cur_lo = 1, cur_hi = range_size u, n_attempts = 0, said = []\<rparr>"
  by (simp add: play_computer_guesses_def)

lemma computer_guess_half:
  "computer_guess (1 / 2) 1 100 = 50" "computer_guess (1 / 2) 1 49 = 25"
  by (simp_all add: computer_guess_def py_round_def Let_def)

text \<open>
  C7 (as amended). In the second mode with \<open>alpha = 0.5\<close> and the range from 1 to 100
  (\<^verbatim>\<open>range_size = 100\<close>), once the player has pressed Enter the first guess printed is
  50: the biased position is \<open>1 + 99 * 0.5 = 50.5\<close>, and \<^verbatim>\<open>round\<close> takes a tie to the
  even neighbour.
\<close>

theorem first_computer_guess_is_50:
  assumes "alpha u = 0.5" and "range_size u = 100"
  shows "py_round (1 + 99 * 0.5) = 50
       \<and> (\<exists>more. said (state_of (play_computer_guesses (Line ready # replies) u)) = 50 # more)"
proof -
  have r: "py_round (1 + 99 * 0.5) = 50"
    by (simp add: py_round_def Let_def)
  from computer_loop_said [of "0.5" replies
      "\<lparr>cur_lo = 1, cur_hi = 100, n_attempts = 0, said = []\<rparr>"]
  have "\<exists>more. said (state_of (play_computer_guesses (Line ready # replies) u)) = 50 # more"
    unfolding play_computer_guesses_ready assms by (simp add: computer_guess_half)
  with r show ?thesis by simp
qed

theorem first_computer_guess_is_50_witness:
  "said (state_of (play_computer_guesses [Line '''', Line ''l'']
      ((UserProfile_init ''Player'')\<lparr>games_played := 4\<rparr>))) = [50, 25]"
proof -
  let ?u = "(UserProfile_init ''Player'')\<lparr>games_played := 4\<rparr>"
  have a: "alpha ?u = 0.5" and b: "range_size ?u = 100"
    by (simp_all add: UserProfile_init_alpha_range)
  have "said (state_of (computer_loop 0.5 [Line ''l'']
      \<lparr>cur_lo = 1, cur_hi = 100, n_attempts = 0, said = []\<rparr>)) = [50, 25]"
    by (simp add: computer_announce_def computer_guess_half computer_reply_def)
  then have "said (state_of (play_computer_guesses [Line '''', Line ''l''] ?u)) = [50, 25]"
    unfolding play_computer_guesses_ready a b .
  then show ?thesis
    using first_computer_guess_is_50 [OF a b, of "''''" "[Line ''l'']"] by simp
qed

text \<open>
  The claim as stated fails on the fresh profile, which has \<open>alpha = 0.5\<close> and
  \<^verbatim>\<open>range_size = 100\<close>: the one guess printed before the first response is not 51.
\<close>

theorem first_computer_guess_51_counterexample:
  "alpha (UserProfile_init ''Player'') = 0.5
   \<and> range_size (UserProfile_init ''Player'') = 100
   \<and> said (state_of (play_computer_guesses [Line ''''] (UserProfile_init ''Player''))) = [50]
   \<and> said (state_of (play_computer_guesses [Line ''''] (UserProfile_init ''Player''))) \<noteq> [51]"
  unfolding play_computer_guesses_ready UserProfile_init_alpha_range
  by (simp add: computer_announce_def computer_guess_half)

section \<open>One pass through the loop of the first mode\<close>

lemma user_turn_no_guess:
  "user_turn secret s EndOfInput st = Raised EOFError st"
  "user_turn secret s Interrupted st = Raised KeyboardInterrupt st"
  "user_turn secret s (Line None) st = Next st"
  "g < cur_lo st \<or> cur_hi st < g \<Longrightarrow> user_turn secret s (Line (Some g)) st = Next st"
  by (auto simp add: user_turn_def)

lemma user_turn_low:
  assumes "cur_lo st \<le> g" and "g \<le> cur_hi st" and "g < secret"
  shows "\<exists>st1. user_turn secret s (Line (Some g)) st = Next st1
           \<and> cur_lo st1 = g + 1 \<and> cur_hi st1 = cur_hi st
           \<and> n_attempts st1 = n_attempts st + 1
           \<and> hot_cold_learner (user st1) = hot_cold_learner (user st)
           \<and> hint_bandit (user st1) = hint_bandit (user st)"
  using assms by (simp add: user_turn_def Let_def)

lemma user_turn_high:
  assumes "cur_lo st \<le> g" and "g \<le> cur_hi st" and "secret < g"
  shows "\<exists>st1. user_turn secret s (Line (Some g)) st = Next st1
           \<and> cur_lo st1 = cur_lo st \<and> cur_hi st1 = g - 1
           \<and> n_attempts st1 = n_attempts st + 1
           \<and> hot_cold_learner (user st1) = hot_cold_learner (user st)
           \<and> hint_bandit (user st1) = hint_bandit (user st)"
  using assms by (simp add: user_turn_def Let_def)

lemma user_turn_match:
  assumes "cur_lo st \<le> secret" and "secret \<le> cur_hi st"
  shows "\<exists>st1. (user_turn secret s (Line (Some secret)) st = Won st1
                \<or> (\<exists>e. user_turn secret s (Line (Some secret)) st = Raised e st1))
           \<and> cur_lo st1 = cur_lo st \<and> cur_hi st1 = cur_hi st"
  using assms
  by (simp add: user_turn_def Let_def split: prod.split option.split)




text \<open>The range after one pass, whatever the input.\<close>

lemma user_turn_range:
  "cur_lo st \<le> cur_lo (state_of (user_turn secret s inp st))
   \<and> cur_hi (state_of (user_turn secret s inp st)) \<le> cur_hi st
   \<and> (cur_lo st \<le> secret \<and> secret \<le> cur_hi st \<longrightarrow>
        cur_lo (state_of (user_turn secret s inp st)) \<le> secret
        \<and> secret \<le> cur_hi (state_of (user_turn secret s inp st)))"
proof (cases inp)
  case (Line x)
  show ?thesis
  proof (cases x)
    case None
    then show ?thesis
      using Line by (simp add: user_turn_no_guess)
  next
    case (Some g)
    consider "g < cur_lo st \<or> cur_hi st < g"
      | "cur_lo st \<le> g" "g \<le> cur_hi st" "g < secret"
      | "cur_lo st \<le> g" "g \<le> cur_hi st" "secret < g"
      | "cur_lo st \<le> g" "g \<le> cur_hi st" "g = secret"
      by linarith
    then show ?thesis
    proof cases
      case 1
      then show ?thesis
        using Line Some by (simp add: user_turn_no_guess)
    next
      case 2
      from user_turn_low [OF 2, of s] show ?thesis
        using Line Some 2 by auto
    next
      case 3
      from user_turn_high [OF 3, of s] show ?thesis
        using Line Some 3 by auto
    next
      case 4
      then have "cur_lo st \<le> secret" "secret \<le> cur_hi st"
        by simp_all
      from user_turn_match [OF this, of s] show ?thesis
        using Line Some 4 by auto
    qed
  qed
qed (simp_all add: user_turn_no_guess)

lemma user_loop_Cons:
  "user_loop secret s (inp # rest) st =
     (case user_turn secret s inp st of
        Next st1 \<Rightarrow> user_loop secret s rest st1
      | r \<Rightarrow> r)"
  by simp

lemma user_loop_range:
  "cur_lo st \<le> cur_lo (state_of (user_loop secret s xs st))
   \<and> cur_hi (state_of (user_loop secret s xs st)) \<le> cur_hi st
   \<and> (cur_lo st \<le> secret \<and> secret \<le> cur_hi st \<longrightarrow>
        cur_lo (state_of (user_loop secret s xs st)) \<le> secret
        \<and> secret \<le> cur_hi (state_of (user_loop secret s xs st)))"
proof (induction xs arbitrary: st)
  case Nil
  then show ?case by simp
next
  case (Cons inp xs)
  note turn = user_turn_range [of st secret s inp]
  show ?case
  proof (cases "user_turn secret s inp st")
    case (Next st1)
    with turn Cons.IH [of st1] show ?thesis
      unfolding user_loop_Cons by auto
  qed (use turn in \<open>auto simp add: user_loop_Cons\<close>)
qed

lemma user_loop_append_range:
  "cur_lo (state_of (user_loop secret s xs st))
     \<le> cur_lo (state_of (user_loop secret s (xs @ ys) st))
   \<and> cur_hi (state_of (user_loop secret s (xs @ ys) st))
     \<le> cur_hi (state_of (user_loop secret s xs st))"
proof (induction xs arbitrary: st)
  case Nil
  then show ?case
    using user_loop_range [of st secret s ys] by simp
next
  case (Cons inp xs)
  show ?case
  proof (cases "user_turn secret s inp st")
    case (Next st1)
    with Cons.IH [of st1] show ?thesis
      by simp
  qed simp_all
qed

section \<open>One pass through the loop of the second mode\<close>

lemma computer_announce_range:
  "cur_lo (snd (computer_announce a st)) = cur_lo st"
  "cur_hi (snd (computer_announce a st)) = cur_hi st"
  by (simp_all add: computer_announce_def Let_def)

lemma computer_reply_range:
  "cur_lo st \<le> cur_lo (state_of (computer_reply guess inp st))
   \<and> cur_hi (state_of (computer_reply guess inp st)) \<le> cur_hi st"
  by (cases inp) (auto simp add: computer_reply_def Let_def)

lemma computer_loop_range:
  "cur_lo st \<le> cur_lo (state_of (computer_loop a xs st))
   \<and> cur_hi (state_of (computer_loop a xs st)) \<le> cur_hi st"
proof (induction xs arbitrary: st)
  case Nil
  then show ?case by (simp add: computer_announce_range)
next
  case (Cons inp xs)
  let ?g = "fst (computer_announce a st)"
  let ?st1 = "snd (computer_announce a st)"
  note reply = computer_reply_range [of ?st1 ?g inp]
  show ?case
    unfolding computer_loop_Cons
  proof (cases "computer_reply ?g inp ?st1")
    case (Next st2)
    with reply Cons.IH [of st2] show "cur_lo st
        \<le> cur_lo (state_of
            (case computer_reply ?g inp ?st1 of Next st2 \<Rightarrow> computer_loop a xs st2 | r \<Rightarrow> r))
      \<and> cur_hi (state_of
            (case computer_reply ?g inp ?st1 of Next st2 \<Rightarrow> computer_loop a xs st2 | r \<Rightarrow> r))
        \<le> cur_hi st"
      by (auto simp add: computer_announce_range)
  qed (use reply in \<open>auto simp add: computer_announce_range\<close>)
qed

lemma computer_loop_append_range:
  "cur_lo (state_of (computer_loop a xs st))
     \<le> cur_lo (state_of (computer_loop a (xs @ ys) st))
   \<and> cur_hi (state_of (computer_loop a (xs @ ys) st))
     \<le> cur_hi (state_of (computer_loop a xs st))"
proof (induction xs arbitrary: st)
  case Nil
  then show ?case
    using computer_loop_range [of st a ys] by (simp add: computer_announce_range)
next
  case (Cons inp xs)
  let ?g = "fst (computer_announce a st)"
  let ?st1 = "snd (computer_announce a st)"
  have "computer_loop a ((inp # xs) @ ys) st =
      (case computer_reply ?g inp ?st1 of Next st2 \<Rightarrow> computer_loop a (xs @ ys) st2 | r \<Rightarrow> r)"
    by (simp split: prod.split)
  then show ?case
    unfolding computer_loop_Cons [of a inp xs]
    using Cons.IH by (cases "computer_reply ?g inp ?st1") simp_all
qed

section \<open>The range only narrows\<close>

lemma play_user_guesses_append_range:
  "cur_lo (state_of (play_user_guesses g xs u))
     \<le> cur_lo (state_of (play_user_guesses g (xs @ ys) u))
   \<and> cur_hi (state_of (play_user_guesses g (xs @ ys) u))
     \<le> cur_hi (state_of (play_user_guesses g xs u))"
proof (cases "random_randint (rand_int g) 1 (range_size u)")
  case (Inl e)
  then show ?thesis
    by (simp add: play_user_guesses_def)
next
  case (Inr secret)
  note secret = this
  show ?thesis
  proof (cases "select_hint_style g (hint_bandit u)")
    case (Inl e)
    then show ?thesis
      using secret by (simp add: play_user_guesses_def)
  next
    case (Inr s)
    then show ?thesis
      using secret user_loop_append_range [of secret s xs _ ys]
      by (simp add: play_user_guesses_def)
  qed
qed

lemma play_computer_guesses_append_range:
  "cur_lo (state_of (play_computer_guesses xs u))
     \<le> cur_lo (state_of (play_computer_guesses (xs @ ys) u))
   \<and> cur_hi (state_of (play_computer_guesses (xs @ ys) u))
     \<le> cur_hi (state_of (play_computer_guesses xs u))"
proof (cases xs)
  case Nil
  note xs = this
  show ?thesis
  proof (cases ys)
    case Nil
    then show ?thesis using xs by simp
  next
    case (Cons y ys')
    show ?thesis
    proof (cases y)
      case (Line ready)
      then show ?thesis
        using xs Cons
          computer_loop_range [of "\<lparr>cur_lo = 1, cur_hi = range_size u, n_attempts = 0, said = []\<rparr>"
            "alpha u" ys']
        by (simp add: play_computer_guesses_def)
    qed (use xs Cons in \<open>simp_all add: play_computer_guesses_def\<close>)
  qed
next
  case (Cons x xs')
  show ?thesis
  proof (cases x)
    case (Line ready)
    then show ?thesis
      using Cons computer_loop_append_range [of "alpha u" xs' _ ys]
      by (simp add: play_computer_guesses_def)
  qed (use Cons in \<open>simp_all add: play_computer_guesses_def\<close>)
qed

text \<open>
  C6. In both modes the range only narrows. Take any inputs \<open>xs\<close> and any further
  inputs \<open>ys\<close>: the state the mode has reached after \<open>xs @ ys\<close> has a \<open>cur_lo\<close> at
  least that reached after \<open>xs\<close> and a \<open>cur_hi\<close> at most that reached after \<open>xs\<close>.
  This holds for the two functions as they start from the range from 1 to
  \<^verbatim>\<open>range_size\<close>, and for their loops started in any state.
\<close>

theorem range_narrowing_monotonic:
  "cur_lo (state_of (play_user_guesses g xs u))
     \<le> cur_lo (state_of (play_user_guesses g (xs @ ys) u))
   \<and> cur_hi (state_of (play_user_guesses g (xs @ ys) u))
     \<le> cur_hi (state_of (play_user_guesses g xs u))
   \<and> cur_lo (state_of (play_computer_guesses rs u))
     \<le> cur_lo (state_of (play_computer_guesses (rs @ rs') u))
   \<and> cur_hi (state_of (play_computer_guesses (rs @ rs') u))
     \<le> cur_hi (state_of (play_computer_guesses rs u))
   \<and> cur_lo (state_of (user_loop secret s xs st))
     \<le> cur_lo (state_of (user_loop secret s (xs @ ys) st))
   \<and> cur_hi (state_of (user_loop secret s (xs @ ys) st))
     \<le> cur_hi (state_of (user_loop secret s xs st))
   \<and> cur_lo (state_of (computer_loop a rs ct))
     \<le> cur_lo (state_of (computer_loop a (rs @ rs') ct))
   \<and> cur_hi (state_of (computer_loop a (rs @ rs') ct))
     \<le> cur_hi (state_of (computer_loop a rs ct))"
  using play_user_guesses_append_range [of g xs u ys]
    play_computer_guesses_append_range [of rs u rs']
    user_loop_append_range [of secret s xs st ys]
    computer_loop_append_range [of a rs ct rs']
  by blast

section \<open>The first mode ends, and only on a match\<close>





text \<open>
  \<^verbatim>\<open>play_user_guesses\<close> enters its loop with the secret inside the range: the secret
  is drawn from 1 to \<^verbatim>\<open>range_size\<close>, which is the first range.
\<close>

lemma play_user_guesses_enters_loop:
  assumes "1 \<le> range_size u" and "select_hint_style g (hint_bandit u) = Inr s"
  shows "\<exists>secret. 1 \<le> secret \<and> secret \<le> range_size u
           \<and> play_user_guesses g xs u =
               user_loop secret s xs \<lparr>cur_lo = 1, cur_hi = range_size u, n_attempts = 0, user = u\<rparr>"
proof -
  let ?secret = "1 + int (rand_int g) mod (range_size u - 1 + 1)"
  have "0 \<le> int (rand_int g) mod range_size u" and "int (rand_int g) mod range_size u < range_size u"
    using assms(1) by simp_all
  then have "1 \<le> ?secret" and "?secret \<le> range_size u"
    by simp_all
  moreover have "play_user_guesses g xs u =
      user_loop ?secret s xs \<lparr>cur_lo = 1, cur_hi = range_size u, n_attempts = 0, user = u\<rparr>"
    using assms by (simp add: play_user_guesses_def random_randint_def Let_def)
  ultimately show ?thesis by blast
qed


lemma UserProfile_init_learners:
  "hot_cold_learner (UserProfile_init name) = HotColdLearner_init 3"
  "hint_bandit (UserProfile_init name) = HintBandit_init [''hot_cold'', ''higher_lower'', ''range''] 0.1"
  by (simp_all add: UserProfile_init_def)


section \<open>Saving and loading a profile\<close>







section \<open>The end of the input inside a mode\<close>

lemma play_user_guesses_fresh_eof:
  "\<exists>st. play_user_guesses g (EndOfInput # rest) (UserProfile_init name) = Raised EOFError st"
proof -
  from select_hint_style_fresh [of g]
  obtain s where "select_hint_style g (hint_bandit (UserProfile_init name)) = Inr s"
    by (auto simp add: UserProfile_init_learners)
  moreover have "1 \<le> range_size (UserProfile_init name)"
    by (simp add: UserProfile_init_alpha_range)
  ultimately obtain secret where "play_user_guesses g (EndOfInput # rest) (UserProfile_init name)
      = user_loop secret s (EndOfInput # rest)
          \<lparr>cur_lo = 1, cur_hi = range_size (UserProfile_init name), n_attempts = 0,
           user = UserProfile_init name\<rparr>"
    using play_user_guesses_enters_loop by blast
  then show ?thesis
    by (simp add: user_turn_no_guess)
qed

text \<open>
  C9 fails on the code. In the first mode the end of the input at the guess prompt
  raises \<^verbatim>\<open>EOFError\<close>, which only \<^verbatim>\<open>except ValueError\<close> surrounds: it leaves
  \<^verbatim>\<open>play_user_guesses\<close> and \<^verbatim>\<open>main\<close>. In the second mode the same happens at
  \<^verbatim>\<open>Press Enter when you're ready...\<close>. Only the response prompt of the second mode
  has the handler: there the mode returns and the menu comes back.
\<close>

theorem end_of_input_in_mode:
  "menu_turn g (Line ''1'') (EndOfInput # rest) replies (UserProfile_init name) fs
     = Uncaught EOFError
   \<and> menu_turn g (Line ''2'') guesses (EndOfInput # later) u fs = Uncaught EOFError
   \<and> menu_turn g (Line ''2'') guesses [Line ready, EndOfInput] u fs = Menu u fs"
proof -
  from play_user_guesses_fresh_eof [of g rest name]
  have one: "menu_turn g (Line ''1'') (EndOfInput # rest) replies (UserProfile_init name) fs
     = Uncaught EOFError"
    by (auto simp add: menu_turn_def)
  have two: "menu_turn g (Line ''2'') guesses (EndOfInput # later) u fs = Uncaught EOFError"
    by (simp add: menu_turn_def play_computer_guesses_def)
  have three: "menu_turn g (Line ''2'') guesses [Line ready, EndOfInput] u fs = Menu u fs"
    by (simp add: menu_turn_def play_computer_guesses_ready computer_reply_def split: prod.split)
  from one two three show ?thesis by simp
qed

section \<open>Every bandit the program builds has its entries\<close>

lemma has_all_styles_init:
  "has_all_styles (HintBandit_init styles rate)"
  unfolding has_all_styles_def
proof
  fix s assume "s \<in> set (hint_styles (HintBandit_init styles rate))"
  then have "s \<in> set styles"
    by (simp add: HintBandit_init_def)
  then show "attempts (HintBandit_init styles rate) s \<noteq> None
      \<and> avg_attempts (HintBandit_init styles rate) s \<noteq> None"
    by (simp add: HintBandit_init_lookup)
qed

lemma has_all_styles_put:
  assumes "has_all_styles b"
  shows "has_all_styles (b\<lparr>attempts := (attempts b)(s \<mapsto> c)\<rparr>)"
    and "has_all_styles (b\<lparr>avg_attempts := (avg_attempts b)(s \<mapsto> a)\<rparr>)"
    and "has_all_styles (b\<lparr>total_games := n\<rparr>)"
  using assms by (simp_all add: has_all_styles_def)

lemma has_all_styles_update_stats:
  assumes "has_all_styles b"
  shows "has_all_styles (snd (update_stats s n b))"
proof (cases "attempts b s")
  case None
  then show ?thesis
    using assms by (simp add: update_stats_def)
next
  case (Some c)
  let ?b2 = "b\<lparr>attempts := (attempts b)(s \<mapsto> c + 1), total_games := total_games b + 1\<rparr>"
  have b2: "has_all_styles ?b2"
    using assms by (simp add: has_all_styles_def)
  show ?thesis
  proof (cases "c + 1 = 1")
    case True
    then have "snd (update_stats s n b) = ?b2\<lparr>avg_attempts := (avg_attempts ?b2)(s \<mapsto> of_int n)\<rparr>"
      using Some by (simp add: update_stats_def Let_def)
    then show ?thesis
      using has_all_styles_put(2) [OF b2] by simp
  next
    case False
    then have "snd (update_stats s n b) = ?b2
        \<or> (\<exists>a. snd (update_stats s n b) = ?b2\<lparr>avg_attempts := (avg_attempts ?b2)(s \<mapsto> a)\<rparr>)"
      using Some by (cases "avg_attempts b s") (auto simp add: update_stats_def Let_def)
    then show ?thesis
      using b2 has_all_styles_put(2) [OF b2] by auto
  qed
qed

lemma user_turn_bandit:
  "hint_bandit (user (state_of (user_turn secret s inp st))) = hint_bandit (user st)
   \<or> (\<exists>n. hint_bandit (user (state_of (user_turn secret s inp st)))
          = snd (update_stats s n (hint_bandit (user st))))"
proof (cases inp)
  case (Line x)
  show ?thesis
  proof (cases x)
    case None
    then show ?thesis
      using Line by (simp add: user_turn_no_guess)
  next
    case (Some g)
    consider "g < cur_lo st \<or> cur_hi st < g"
      | "cur_lo st \<le> g" "g \<le> cur_hi st" "g < secret"
      | "cur_lo st \<le> g" "g \<le> cur_hi st" "secret < g"
      | "cur_lo st \<le> g" "g \<le> cur_hi st" "g = secret"
      by linarith
    then show ?thesis
    proof cases
      case 1
      then show ?thesis
        using Line Some by (simp add: user_turn_no_guess)
    next
      case 2
      from user_turn_low [OF 2, of s] show ?thesis
        using Line Some by auto
    next
      case 3
      from user_turn_high [OF 3, of s] show ?thesis
        using Line Some by auto
    next
      case 4
      let ?n = "n_attempts st + 1"
      obtain e l where rec: "record_game ?n (hot_cold_learner (user st)) = (e, l)"
        by (cases "record_game ?n (hot_cold_learner (user st))")
      obtain e' b where upd: "update_stats s ?n (hint_bandit (user st)) = (e', b)"
        by (cases "update_stats s ?n (hint_bandit (user st))")
      have "hint_bandit (user (state_of (user_turn secret s (Line (Some secret)) st)))
          = hint_bandit (user st)
        \<or> hint_bandit (user (state_of (user_turn secret s (Line (Some secret)) st))) = b"
        using 4 rec upd
        by (cases e; cases e') (simp_all add: user_turn_def Let_def update_user_stats_def)
      then show ?thesis
        using Line Some 4 upd by (metis snd_conv)
    qed
  qed
qed (simp_all add: user_turn_no_guess)

lemma user_loop_keeps_styles:
  "has_all_styles (hint_bandit (user st))
   \<Longrightarrow> has_all_styles (hint_bandit (user (state_of (user_loop secret s xs st))))"
proof (induction xs arbitrary: st)
  case Nil
  then show ?case by simp
next
  case (Cons inp xs)
  have turn: "has_all_styles (hint_bandit (user (state_of (user_turn secret s inp st))))"
    using user_turn_bandit [of secret s inp st] Cons.prems has_all_styles_update_stats
    by auto
  show ?case
  proof (cases "user_turn secret s inp st")
    case (Next st1)
    with turn Cons.IH [of st1] show ?thesis by simp
  qed (use turn in simp_all)
qed

lemma play_user_guesses_keeps_styles:
  assumes "has_all_styles (hint_bandit u)"
  shows "has_all_styles (hint_bandit (user (state_of (play_user_guesses g xs u))))"
proof (cases "random_randint (rand_int g) 1 (range_size u)")
  case (Inl e)
  then show ?thesis
    using assms by (simp add: play_user_guesses_def)
next
  case (Inr secret)
  note secret = this
  show ?thesis
  proof (cases "select_hint_style g (hint_bandit u)")
    case (Inl e)
    then show ?thesis
      using assms secret by (simp add: play_user_guesses_def)
  next
    case (Inr s)
    have "has_all_styles (hint_bandit (user (state_of (user_loop secret s xs
        \<lparr>cur_lo = 1, cur_hi = range_size u, n_attempts = 0, user = u\<rparr>))))"
      by (rule user_loop_keeps_styles) (simp add: assms)
    then show ?thesis
      using secret Inr by (simp add: play_user_guesses_def)
  qed
qed

lemma load_style_stats_keeps_styles:
  "has_all_styles (hint_bandit self) \<Longrightarrow> load_style_stats items self = Returned r self'
   \<Longrightarrow> has_all_styles (hint_bandit self')"
proof (induction items arbitrary: self)
  case Nil
  then show ?case by simp
next
  case (Cons item items)
  note wf = Cons.prems(1) and run = Cons.prems(2)
  let ?s = "fst item"
  show ?case
  proof (cases "?s \<in> set (hint_styles (hint_bandit self))")
    case False
    then have "load_style_stats items self = Returned r self'"
      using run by (simp add: Let_def)
    from Cons.IH [OF wf this] show ?thesis .
  next
    case True
    note known = this
    show ?thesis
    proof (cases "\<exists>members. snd item = JObject members")
      case False
      then have "load_style_stats (item # items) self = Returned False self"
        using known by (cases "snd item") (simp_all add: Let_def)
      then show ?thesis
        using run wf by simp
    next
      case True
      then obtain members where obj: "snd item = JObject members"
        by blast
      show ?thesis
      proof (cases "map_of members ''attempts''")
        case None
        then have "load_style_stats (item # items) self = Returned False self"
          using known obj by (simp add: Let_def)
        then show ?thesis
          using run wf by simp
      next
        case (Some v)
        note v = this
        show ?thesis
        proof (cases "as_int v")
          case None
          then have "load_style_stats (item # items) self = Unrepresentable"
            using known obj v by (simp add: Let_def)
          then show ?thesis
            using run by simp
        next
          case (Some c)
          note c = this
          let ?b1 = "(hint_bandit self)\<lparr>attempts := (attempts (hint_bandit self))(?s \<mapsto> c)\<rparr>"
          have wf1: "has_all_styles ?b1"
            by (rule has_all_styles_put(1) [OF wf])
          show ?thesis
          proof (cases "map_of members ''avg_attempts''")
            case None
            then have "load_style_stats (item # items) self
                = Returned False (self\<lparr>hint_bandit := ?b1\<rparr>)"
              using known obj v c by (simp add: Let_def)
            then show ?thesis
              using run wf1 by auto
          next
            case (Some w)
            note w = this
            show ?thesis
            proof (cases "as_float w")
              case None
              then have "load_style_stats (item # items) self = Unrepresentable"
                using known obj v c w by (simp add: Let_def)
              then show ?thesis
                using run by simp
            next
              case (Some a)
              let ?self2 = "self\<lparr>hint_bandit := ?b1\<lparr>avg_attempts := (avg_attempts ?b1)(?s \<mapsto> a)\<rparr>\<rparr>"
              have "load_style_stats (item # items) self = load_style_stats items ?self2"
                using known obj v c w Some by (simp add: Let_def)
              then have "load_style_stats items ?self2 = Returned r self'"
                using run by simp
              moreover have "has_all_styles (hint_bandit ?self2)"
                using has_all_styles_put(2) [OF wf1] by simp
              ultimately show ?thesis
                by (rule Cons.IH [rotated])
            qed
          qed
        qed
      qed
    qed
  qed
qed

lemma load_from_file_keeps_styles:
  assumes wf: "has_all_styles (hint_bandit self)"
    and run: "load_from_file self fs = Returned r self'"
  shows "has_all_styles (hint_bandit self')"
proof (cases "\<exists>d. fs (profile_filename (username self)) = Some (Json (JObject d))")
  case False
  have "load_from_file self fs = Returned False self"
  proof (cases "fs (profile_filename (username self))")
    case None
    then show ?thesis
      by (simp add: load_from_file_def)
  next
    case (Some f)
    show ?thesis
    proof (cases f)
      case (Json data)
      with Some False show ?thesis
        by (cases data) (simp_all add: load_from_file_def)
    next
      case NotJson
      with Some show ?thesis
        by (simp add: load_from_file_def)
    qed
  qed
  then show ?thesis
    using run wf by simp
next
  case True
  then obtain d where stored: "fs (profile_filename (username self)) = Some (Json (JObject d))"
    by blast
  define A where "A = (case map_of d ''alpha'' of None \<Rightarrow> Some 0.5 | Some v \<Rightarrow> as_float v)"
  define B where "B = (case map_of d ''avg_attempts'' of
                           None \<Rightarrow> Some None
                         | Some JNull \<Rightarrow> Some None
                         | Some v \<Rightarrow> map_option Some (as_float v))"
  define C where "C = (case map_of d ''range_size'' of None \<Rightarrow> Some 100 | Some v \<Rightarrow> as_int v)"
  define D where "D = (case map_of d ''games_played'' of None \<Rightarrow> Some 0 | Some v \<Rightarrow> as_int v)"
  define K where "K = (case map_of d ''hot_cold_k'' of
                              None \<Rightarrow> Some (k (hot_cold_learner self))
                            | Some v \<Rightarrow> as_float v)"
  have unfolded: "load_from_file self fs =
      (case A of None \<Rightarrow> Unrepresentable | Some al \<Rightarrow>
       case B of None \<Rightarrow> Unrepresentable | Some av \<Rightarrow>
       case C of None \<Rightarrow> Unrepresentable | Some rs \<Rightarrow>
       case D of None \<Rightarrow> Unrepresentable | Some gp \<Rightarrow>
       case K of None \<Rightarrow> Unrepresentable | Some k1 \<Rightarrow>
         (case map_of d ''hint_style_stats'' of
            None \<Rightarrow> Returned True
              (self\<lparr>alpha := al, user_avg_attempts := av, range_size := rs, games_played := gp,
                    hot_cold_learner := (hot_cold_learner self)\<lparr>k := k1\<rparr>\<rparr>)
          | Some (JObject items) \<Rightarrow> load_style_stats items
              (self\<lparr>alpha := al, user_avg_attempts := av, range_size := rs, games_played := gp,
                    hot_cold_learner := (hot_cold_learner self)\<lparr>k := k1\<rparr>\<rparr>)
          | Some _ \<Rightarrow> Returned False
              (self\<lparr>alpha := al, user_avg_attempts := av, range_size := rs, games_played := gp,
                    hot_cold_learner := (hot_cold_learner self)\<lparr>k := k1\<rparr>\<rparr>)))"
    unfolding load_from_file_def Let_def A_def B_def C_def D_def K_def stored
    by (simp cong: option.case_cong json.case_cong)
  obtain al av rs gp k1 where "A = Some al" "B = Some av" "C = Some rs" "D = Some gp" "K = Some k1"
    using run unfolding unfolded
    by (cases A; cases B; cases C; cases D; cases K) simp_all
  note dec = this
  let ?self2 = "self\<lparr>alpha := al, user_avg_attempts := av, range_size := rs, games_played := gp,
                    hot_cold_learner := (hot_cold_learner self)\<lparr>k := k1\<rparr>\<rparr>"
  have wf2: "has_all_styles (hint_bandit ?self2)"
    using wf by simp
  show ?thesis
  proof (cases "map_of d ''hint_style_stats''")
    case None
    then have "self' = ?self2"
      using run unfolding unfolded dec by simp
    then show ?thesis
      using wf2 by simp
  next
    case (Some v)
    show ?thesis
    proof (cases "\<exists>items. v = JObject items")
      case True
      then obtain items where "v = JObject items"
        by blast
      then have "load_style_stats items ?self2 = Returned r self'"
        using run Some unfolding unfolded dec by simp
      from load_style_stats_keeps_styles [OF wf2 this] show ?thesis .
    next
      case False
      then have "self' = ?self2"
        using run Some unfolding unfolded dec by (cases v) simp_all
      then show ?thesis
        using wf2 by simp
    qed
  qed
qed

lemma UserProfile_init_has_all_styles:
  "has_all_styles (hint_bandit (UserProfile_init name))"
  by (simp add: UserProfile_init_learners has_all_styles_init)

text \<open>No method changes the learner's \<^verbatim>\<open>target_guesses\<close>, which the constructor sets to 3.\<close>

lemma record_game_target:
  "target_guesses (snd (record_game a l)) = target_guesses l"
  using update_k_result [of a "target_guesses l"
      "l\<lparr>history := history l @ [(a, target_guesses l)]\<rparr>"]
  by (auto simp add: record_game_def Let_def)

lemma user_turn_target:
  "target_guesses (hot_cold_learner (user (state_of (user_turn secret s inp st))))
     = target_guesses (hot_cold_learner (user st))"
proof (cases inp)
  case (Line x)
  show ?thesis
  proof (cases x)
    case None
    then show ?thesis
      using Line by (simp add: user_turn_no_guess)
  next
    case (Some g)
    consider "g < cur_lo st \<or> cur_hi st < g"
      | "cur_lo st \<le> g" "g \<le> cur_hi st" "g < secret"
      | "cur_lo st \<le> g" "g \<le> cur_hi st" "secret < g"
      | "cur_lo st \<le> g" "g \<le> cur_hi st" "g = secret"
      by linarith
    then show ?thesis
    proof cases
      case 1
      then show ?thesis
        using Line Some by (simp add: user_turn_no_guess)
    next
      case 2
      from user_turn_low [OF 2, of s] show ?thesis
        using Line Some by auto
    next
      case 3
      from user_turn_high [OF 3, of s] show ?thesis
        using Line Some by auto
    next
      case 4
      let ?n = "n_attempts st + 1"
      obtain e l where rec: "record_game ?n (hot_cold_learner (user st)) = (e, l)"
        by (cases "record_game ?n (hot_cold_learner (user st))")
      then have l: "target_guesses l = target_guesses (hot_cold_learner (user st))"
        using record_game_target [of ?n "hot_cold_learner (user st)"] by simp
      obtain e' b where upd: "update_stats s ?n (hint_bandit (user st)) = (e', b)"
        by (cases "update_stats s ?n (hint_bandit (user st))")
      have "hot_cold_learner (user (state_of (user_turn secret s (Line (Some secret)) st))) = l"
        using 4 rec upd
        by (cases e; cases e') (simp_all add: user_turn_def Let_def update_user_stats_def)
      then show ?thesis
        using Line Some 4 l by simp
    qed
  qed
qed (simp_all add: user_turn_no_guess)

end
